theory Spec2Isabelle
  imports Main "HOL-Library.Monad_Syntax"
begin

section \<open>The collaborators of reply.go\<close>

text \<open>
  \<^verbatim>\<open>type Identifier interface { Id() string; PublicId() string; Nick() string }\<close>

  An identity is used by reply.go only through its three string projections, so it is the
  record of what the three methods return.
\<close>

record Identifier =
  Id_str :: string
  PublicId :: string
  Nick :: string

text \<open>
  The types \<^verbatim>\<open>Server\<close>, \<^verbatim>\<open>Channel\<close> and \<^verbatim>\<open>Client\<close> are declared
  outside reply.go. The records below hold exactly what reply.go reads of them: the fields
  \<^verbatim>\<open>channel.server\<close> and \<^verbatim>\<open>channel.name\<close>, the result of the method
  \<^verbatim>\<open>channel.Nicks()\<close>, and each object seen as an \<^verbatim>\<open>Identifier\<close>. The method
  \<^verbatim>\<open>Nicks()\<close> is taken to be a function of the state of the channel: for one state it
  returns one sequence of names.
\<close>

record Server =
  server_ident :: Identifier

record Channel =
  channel_ident :: Identifier
  server :: Server
  name :: string
  Nicks :: "string list"

record Client =
  client_ident :: Identifier

text \<open>
  A \<^verbatim>\<open>*Channel\<close> is a reference into the heap of channels. Every reference is taken to
  be live (the code never passes nil), so the heap is a total function.
\<close>

type_synonym ref = nat
type_synonym heap = "ref \<Rightarrow> Channel"

text \<open>
  The numeric codes \<^verbatim>\<open>RPL_NAMREPLY\<close> and \<^verbatim>\<open>RPL_ENDOFNAMES\<close> are constants declared
  outside reply.go; they are parameters of the model.
\<close>

record Numerics =
  RPL_NAMREPLY :: int
  RPL_ENDOFNAMES :: int

section \<open>Library functions of Go used by reply.go\<close>

text \<open>
  \<^verbatim>\<open>len\<close> of a Go string counts bytes; a \<^typ>\<open>string\<close> is a list of bytes, so
  \<^const>\<open>length\<close> is \<^verbatim>\<open>len\<close>.

  \<^verbatim>\<open>fmt.Sprintf("%03d", n)\<close>: the decimal digits of \<open>n\<close>, padded with zeros to the width
  three; the sign of a negative number counts for the width and stands before the zeros.
\<close>

definition digit :: "nat \<Rightarrow> char" where
  "digit d = ''0123456789'' ! d"

fun decimal :: "nat \<Rightarrow> string" where
  "decimal n = (if n < 10 then [digit n] else decimal (n div 10) @ [digit (n mod 10)])"

declare decimal.simps [simp del]

definition pad0 :: "nat \<Rightarrow> string \<Rightarrow> string" where
  "pad0 w s = replicate (w - length s) (CHR ''0'') @ s"

definition fmt_03d :: "int \<Rightarrow> string" where
  "fmt_03d n =
     (if n < 0 then CHR ''-'' # pad0 2 (decimal (nat (- n))) else pad0 3 (decimal (nat n)))"

text \<open>\<^verbatim>\<open>strings.Join(names, sep)\<close>\<close>

fun Join :: "string list \<Rightarrow> string \<Rightarrow> string" where
  "Join [] sep = []"
| "Join [a] sep = a"
| "Join (a # b # rest) sep = a @ sep @ Join (b # rest) sep"

text \<open>
  The slice expression \<^verbatim>\<open>s[lo:hi]\<close> panics unless \<open>0 \<le> lo \<le> hi \<le> len(s)\<close>
  (the slices of reply.go have no spare capacity); \<^const>\<open>None\<close> is the panic. Indices
  are natural numbers: the only index the code computes by subtraction is \<^verbatim>\<open>i - 1\<close>
  under the guard \<^verbatim>\<open>i > start\<close>, with \<open>start\<close> never negative.
\<close>

definition slice :: "'a list \<Rightarrow> nat \<Rightarrow> nat \<Rightarrow> 'a list option" where
  "slice s lo hi = (if lo \<le> hi \<and> hi \<le> length s then Some (take (hi - lo) (drop lo s)) else None)"

section \<open>Replies\<close>

text \<open>
  \<^verbatim>\<open>type BaseReply struct { source Identifier; message string }\<close>
\<close>

record BaseReply =
  source :: Identifier
  message :: string

text \<open>
  \<^verbatim>\<open>type StringReply struct { *BaseReply; code string }\<close>
\<close>

record StringReply = BaseReply +
  scode :: string

text \<open>
  \<^verbatim>\<open>type NumericReply struct { *BaseReply; code int }\<close>
\<close>

record NumericReply = BaseReply +
  code :: int

text \<open>
  \<^verbatim>\<open>type NamesReply struct { *BaseReply; channel *Channel }\<close>

  \<^verbatim>\<open>NewNamesReply\<close> sets \<^verbatim>\<open>source\<close> to the same pointer as \<^verbatim>\<open>channel\<close> and leaves
  \<^verbatim>\<open>message\<close> empty; \<^verbatim>\<open>Format\<close> reads neither, so the record keeps the pointer once.
\<close>

record NamesReply =
  channel :: ref

text \<open>
  The output channel \<^verbatim>\<open>write chan<- string\<close> is the list of the lines sent so far;
  \<^verbatim>\<open>write <- s\<close> appends \<open>s\<close> and returns (the receiver is taken to be ready, so a
  send does not block).

  The constructors take the message already formatted: the value of
  \<^verbatim>\<open>fmt.Sprintf(format, args...)\<close>.
\<close>

definition NewStringReply :: "Identifier \<Rightarrow> string \<Rightarrow> string \<Rightarrow> StringReply" where
  "NewStringReply src c msg =
     \<lparr>source = src, message = '':'' @ Id_str src @ '' '' @ c @ '' '' @ msg, scode = c\<rparr>"


definition NewNumericReply :: "Identifier \<Rightarrow> int \<Rightarrow> string \<Rightarrow> NumericReply" where
  "NewNumericReply src c msg = \<lparr>source = src, message = msg, code = c\<rparr>"

definition NumericReply_FormatString :: "NumericReply \<Rightarrow> Client \<Rightarrow> string" where
  "NumericReply_FormatString reply client =
     '':'' @ Id_str (source reply) @ '' '' @ fmt_03d (code reply) @ '' '' @
     Nick (client_ident client) @ '' '' @ message reply"

definition NumericReply_Format :: "NumericReply \<Rightarrow> Client \<Rightarrow> string list \<Rightarrow> string list" where
  "NumericReply_Format reply client write = write @ [NumericReply_FormatString reply client]"

definition RplNamReply :: "Numerics \<Rightarrow> Channel \<Rightarrow> string list \<Rightarrow> NumericReply" where
  "RplNamReply K ch names =
     NewNumericReply (server_ident (server ch)) (RPL_NAMREPLY K)
       (''= '' @ name ch @ '' :'' @ Join names '' '')"

definition RplEndOfNames :: "Numerics \<Rightarrow> Identifier \<Rightarrow> NumericReply" where
  "RplEndOfNames K src = NewNumericReply src (RPL_ENDOFNAMES K) '':End of NAMES list''"

section \<open>The names reply\<close>

definition NewNamesReply :: "ref \<Rightarrow> NamesReply" where
  "NewNamesReply c = \<lparr>channel = c\<rparr>"

definition MAX_REPLY_LEN :: int where
  "MAX_REPLY_LEN = 510"

definition joinedLen :: "string list \<Rightarrow> int" where
  "joinedLen names = fold (\<lambda>nm l. l + int (length nm)) names (int (length names) - 1)"

definition tooLong :: "int \<Rightarrow> string list \<Rightarrow> bool" where
  "tooLong baseLen names \<longleftrightarrow> baseLen + joinedLen names > MAX_REPLY_LEN"

text \<open>
  The body of \<^verbatim>\<open>for i := range nicks\<close>, on the loop state \<open>(start, write)\<close>. The
  conjunction \<^verbatim>\<open>&&\<close> evaluates the slice only when \<^verbatim>\<open>i > start\<close>.
\<close>

definition Format_step ::
  "Numerics \<Rightarrow> Channel \<Rightarrow> Client \<Rightarrow> int \<Rightarrow> string list \<Rightarrow> nat \<Rightarrow> nat \<times> string list \<Rightarrow>
   (nat \<times> string list) option" where
  "Format_step K ch client baseLen nicks i s =
     (case s of (start, write) \<Rightarrow>
        if i > start then
          do {
            names \<leftarrow> slice nicks start i;
            if tooLong baseLen names then
              do {
                group \<leftarrow> slice nicks start (i - 1);
                Some (i - 1, NumericReply_Format (RplNamReply K ch group) client write)
              }
            else Some (start, write)
          }
        else Some (start, write))"

fun Format_loop ::
  "Numerics \<Rightarrow> Channel \<Rightarrow> Client \<Rightarrow> int \<Rightarrow> string list \<Rightarrow> nat list \<Rightarrow> nat \<times> string list \<Rightarrow>
   (nat \<times> string list) option" where
  "Format_loop K ch client baseLen nicks [] s = Some s"
| "Format_loop K ch client baseLen nicks (i # is) s =
     do {
       s' \<leftarrow> Format_step K ch client baseLen nicks i s;
       Format_loop K ch client baseLen nicks is s'
     }"

text \<open>
  \<^verbatim>\<open>func (reply *NamesReply) Format(client *Client, write chan<- string)\<close>

  The channel is read through the pointer when \<^verbatim>\<open>Format\<close> runs. The comparison of the
  final flush is on Go's signed integers: \<^verbatim>\<open>len(nicks) - 1\<close> is \<open>-1\<close> for no members.
\<close>

definition NamesReply_Format ::
  "Numerics \<Rightarrow> heap \<Rightarrow> NamesReply \<Rightarrow> Client \<Rightarrow> string list \<Rightarrow> string list option" where
  "NamesReply_Format K h reply client write =
     (let ch = h (channel reply);
          base = RplNamReply K ch [];
          baseLen = int (length (NumericReply_FormatString base client));
          nicks = Nicks ch
      in do {
        (start, write1) \<leftarrow> Format_loop K ch client baseLen nicks [0..<length nicks] (0, write);
        write2 \<leftarrow>
          (if int start < int (length nicks) - 1 then
             do {
               group \<leftarrow> slice nicks start (length nicks);
               Some (NumericReply_Format (RplNamReply K ch group) client write1)
             }
           else Some write1);
        Some (NumericReply_Format (RplEndOfNames K (channel_ident ch)) client write2)
      })"



section \<open>The groups of a run\<close>

text \<open>
  The member groups that \<^verbatim>\<open>Format\<close> hands to \<^verbatim>\<open>RplNamReply\<close>, in order: the loop
  and the final flush of \<^const>\<open>NamesReply_Format\<close> once more, recording each slice where
  the source writes its line. Lemma \<open>NamesReply_Format_groups\<close> below proves that the lines
  \<^verbatim>\<open>Format\<close> writes are the lines of these groups, followed by the terminator.
\<close>

definition groups_step ::
  "int \<Rightarrow> string list \<Rightarrow> nat \<Rightarrow> nat \<times> string list list \<Rightarrow> (nat \<times> string list list) option" where
  "groups_step baseLen nicks i s =
     (case s of (start, groups) \<Rightarrow>
        if i > start then
          do {
            names \<leftarrow> slice nicks start i;
            if tooLong baseLen names then
              do {
                group \<leftarrow> slice nicks start (i - 1);
                Some (i - 1, groups @ [group])
              }
            else Some (start, groups)
          }
        else Some (start, groups))"

fun groups_loop ::
  "int \<Rightarrow> string list \<Rightarrow> nat list \<Rightarrow> nat \<times> string list list \<Rightarrow> (nat \<times> string list list) option" where
  "groups_loop baseLen nicks [] s = Some s"
| "groups_loop baseLen nicks (i # is) s =
     do {
       s' \<leftarrow> groups_step baseLen nicks i s;
       groups_loop baseLen nicks is s'
     }"

definition NamesReply_groups :: "int \<Rightarrow> string list \<Rightarrow> string list list option" where
  "NamesReply_groups baseLen nicks =
     do {
       (start, groups1) \<leftarrow> groups_loop baseLen nicks [0..<length nicks] (0, []);
       (if int start < int (length nicks) - 1 then
          do {
            group \<leftarrow> slice nicks start (length nicks);
            Some (groups1 @ [group])
          }
        else Some groups1)
     }"

text \<open>
  The line of a group, the terminator line, and the length of the line of the empty group
  (\<^verbatim>\<open>baseLen\<close> in the source), for a channel and a recipient.
\<close>

definition group_line :: "Numerics \<Rightarrow> Channel \<Rightarrow> Client \<Rightarrow> string list \<Rightarrow> string" where
  "group_line K ch client names = NumericReply_FormatString (RplNamReply K ch names) client"

definition end_line :: "Numerics \<Rightarrow> Channel \<Rightarrow> Client \<Rightarrow> string" where
  "end_line K ch client = NumericReply_FormatString (RplEndOfNames K (channel_ident ch)) client"

definition prefixLen :: "Numerics \<Rightarrow> Channel \<Rightarrow> Client \<Rightarrow> int" where
  "prefixLen K ch client = int (length (group_line K ch client []))"

text \<open>
  The value of a slice that is in range, and the budget test on the rendered group.
\<close>

definition seg :: "'a list \<Rightarrow> nat \<Rightarrow> nat \<Rightarrow> 'a list" where
  "seg s lo hi = take (hi - lo) (drop lo s)"

definition fits :: "int \<Rightarrow> string list \<Rightarrow> bool" where
  "fits bl names \<longleftrightarrow> bl + int (length (Join names '' '')) \<le> MAX_REPLY_LEN"

section \<open>Concrete inputs\<close>

text \<open>
  The numeric codes of the IRC protocol, a server, a room named \<open>#go\<close> with given
  members, and a recipient with a given name. For the recipient \<open>bob\<close> the line of the
  empty group, \<open>:srv 353 bob = #go :\<close>, is 20 bytes long; the first two members of
  \<open>exact_nicks\<close>, joined, are 490 bytes long.
\<close>

definition irc_numerics :: Numerics where
  "irc_numerics = \<lparr>RPL_NAMREPLY = 353, RPL_ENDOFNAMES = 366\<rparr>"

definition srv :: Server where
  "srv = \<lparr>server_ident = \<lparr>Id_str = ''srv'', PublicId = ''srv'', Nick = ''srv''\<rparr>\<rparr>"

definition room :: "string list \<Rightarrow> Channel" where
  "room members =
     \<lparr>channel_ident = \<lparr>Id_str = ''#go'', PublicId = ''#go'', Nick = ''#go''\<rparr>,
      server = srv, name = ''#go'', Nicks = members\<rparr>"

definition recipient :: "string \<Rightarrow> Client" where
  "recipient nick = \<lparr>client_ident = \<lparr>Id_str = nick @ ''!u@host'', PublicId = nick @ ''!u@host'', Nick = nick\<rparr>\<rparr>"

definition exact_nicks :: "string list" where
  "exact_nicks = [replicate 245 (CHR ''a''), replicate 244 (CHR ''b''), ''carol'', ''dave'']"

text \<open>
  A room of 55 members whose names are 8 bytes long, and a room whose only member has a
  name of 490 bytes.
\<close>

definition crowd :: "string list" where
  "crowd = replicate 55 ''abcdefgh''"

definition sole_nick :: string where
  "sole_nick = replicate 490 (CHR ''a'')"

section \<open>Properties of the model\<close>

subsection \<open>The lines written are the lines of the groups\<close>

lemma Format_step_groups:
  "Format_step K ch client baseLen nicks i (start, w @ map (group_line K ch client) gs) =
   map_option (\<lambda>(s, gs'). (s, w @ map (group_line K ch client) gs'))
     (groups_step baseLen nicks i (start, gs))"
  by (simp add: Format_step_def groups_step_def group_line_def NumericReply_Format_def
      split: Option.bind_split)

lemma Format_loop_groups:
  "Format_loop K ch client baseLen nicks is (start, w @ map (group_line K ch client) gs) =
   map_option (\<lambda>(s, gs'). (s, w @ map (group_line K ch client) gs'))
     (groups_loop baseLen nicks is (start, gs))"
proof (induction "is" arbitrary: start gs)
  case Nil
  show ?case by simp
next
  case (Cons i "is")
  show ?case
  proof (cases "groups_step baseLen nicks i (start, gs)")
    case None
    then show ?thesis by (simp add: Format_step_groups)
  next
    case (Some s')
    obtain start' gs' where s': "s' = (start', gs')" by (cases s')
    show ?thesis using Cons.IH [of start' gs'] Some s'
      by (simp add: Format_step_groups)
  qed
qed

lemma NamesReply_Format_groups:
  "NamesReply_Format K h reply client w =
   map_option (\<lambda>gs. w @ map (group_line K (h (channel reply)) client) gs @ [end_line K (h (channel reply)) client])
     (NamesReply_groups (prefixLen K (h (channel reply)) client) (Nicks (h (channel reply))))"
proof -
  let ?ch = "h (channel reply)"
  let ?bl = "prefixLen K ?ch client"
  let ?nicks = "Nicks ?ch"
  have loop: "Format_loop K ?ch client ?bl ?nicks [0..<length ?nicks] (0, w) =
      map_option (\<lambda>(s, gs'). (s, w @ map (group_line K ?ch client) gs'))
        (groups_loop ?bl ?nicks [0..<length ?nicks] (0, []))"
    using Format_loop_groups [of K ?ch client ?bl ?nicks "[0..<length ?nicks]" 0 w "[]"] by simp
  have bl: "int (length (NumericReply_FormatString (RplNamReply K ?ch []) client)) = ?bl"
    by (simp add: prefixLen_def group_line_def)
  show ?thesis
  proof (cases "groups_loop ?bl ?nicks [0..<length ?nicks] (0, [])")
    case None
    then show ?thesis
      by (simp add: NamesReply_Format_def NamesReply_groups_def Let_def bl loop)
  next
    case (Some s)
    obtain start gs where s: "s = (start, gs)" by (cases s)
    show ?thesis
      using Some s
      by (simp add: NamesReply_Format_def NamesReply_groups_def Let_def bl loop
          NumericReply_Format_def group_line_def end_line_def split: Option.bind_split)
  qed
qed

subsection \<open>The scanning loop\<close>

text \<open>
  A rule for invariants of the loop, started at any index \<open>j\<close>: an iteration either
  keeps the state or emits the members from the cursor up to the one before the last
  tested, and moves the cursor there. No slice is out of range, since the cursor is 0 or at
  least two behind the index.
\<close>

lemma slice_Some: "lo \<le> hi \<Longrightarrow> hi \<le> length s \<Longrightarrow> slice s lo hi = Some (seg s lo hi)"
  by (simp add: slice_def seg_def)

lemma groups_loop_append:
  "groups_loop bl nicks (xs @ ys) s = groups_loop bl nicks xs s \<bind> groups_loop bl nicks ys"
  by (induction xs arbitrary: s) (simp_all split: Option.bind_split)

lemma groups_step_split:
  assumes "start < i" "i \<le> length nicks" "tooLong bl (seg nicks start i)"
  shows "groups_step bl nicks i (start, gs) = Some (i - 1, gs @ [seg nicks start (i - 1)])"
  using assms by (simp add: groups_step_def slice_Some)

lemma groups_step_keep:
  assumes "\<not> (start < i \<and> tooLong bl (seg nicks start i))" "i \<le> length nicks"
  shows "groups_step bl nicks i (start, gs) = Some (start, gs)"
  using assms by (auto simp add: groups_step_def slice_Some)

lemma groups_loop_invariant_from:
  assumes init: "P j start0 gs0" and start0: "start0 = 0 \<or> start0 + 2 \<le> j"
    and keep: "\<And>k start gs. j \<le> k \<Longrightarrow> k < length nicks \<Longrightarrow> P k start gs \<Longrightarrow>
        start = 0 \<or> start + 2 \<le> k \<Longrightarrow>
        \<not> (start < k \<and> tooLong bl (seg nicks start k)) \<Longrightarrow> P (Suc k) start gs"
    and split: "\<And>k start gs. j \<le> k \<Longrightarrow> k < length nicks \<Longrightarrow> P k start gs \<Longrightarrow>
        start = 0 \<or> start + 2 \<le> k \<Longrightarrow>
        start < k \<Longrightarrow> tooLong bl (seg nicks start k) \<Longrightarrow>
        P (Suc k) (k - 1) (gs @ [seg nicks start (k - 1)])"
    and jk: "j \<le> k" and k: "k \<le> length nicks"
  shows "\<exists>start gs. groups_loop bl nicks [j..<k] (start0, gs0) = Some (start, gs) \<and>
           P k start gs \<and> (start = 0 \<or> start + 2 \<le> k)"
  using jk k
proof (induction k rule: dec_induct)
  case base
  show ?case using init start0 by simp
next
  case (step k)
  then obtain start gs where run: "groups_loop bl nicks [j..<k] (start0, gs0) = Some (start, gs)"
    and P: "P k start gs" and st: "start = 0 \<or> start + 2 \<le> k"
    by auto
  have k: "k < length nicks" using step.prems by simp
  have jk: "j \<le> k" using step.hyps by simp
  have upt: "[j..<Suc k] = [j..<k] @ [k]" using jk by simp
  show ?case
  proof (cases "start < k \<and> tooLong bl (seg nicks start k)")
    case True
    then have "groups_step bl nicks k (start, gs) = Some (k - 1, gs @ [seg nicks start (k - 1)])"
      using groups_step_split [of start k nicks bl gs] k by simp
    moreover have "P (Suc k) (k - 1) (gs @ [seg nicks start (k - 1)])"
      using split [OF jk k P st] True by simp
    moreover have "k - 1 = 0 \<or> (k - 1) + 2 \<le> Suc k" using True by arith
    ultimately show ?thesis
      using run by (simp only: upt groups_loop_append) simp
  next
    case False
    then have "groups_step bl nicks k (start, gs) = Some (start, gs)"
      using groups_step_keep [of start k bl nicks gs] k by simp
    moreover have "P (Suc k) start gs"
      using keep [OF jk k P st False] .
    moreover have "start = 0 \<or> start + 2 \<le> Suc k" using st by arith
    ultimately show ?thesis
      using run by (simp only: upt groups_loop_append) simp
  qed
qed

lemma groups_loop_invariant:
  assumes init: "P 0 0 []"
    and keep: "\<And>k start gs. k < length nicks \<Longrightarrow> P k start gs \<Longrightarrow> start = 0 \<or> start + 2 \<le> k \<Longrightarrow>
        \<not> (start < k \<and> tooLong bl (seg nicks start k)) \<Longrightarrow> P (Suc k) start gs"
    and split: "\<And>k start gs. k < length nicks \<Longrightarrow> P k start gs \<Longrightarrow> start = 0 \<or> start + 2 \<le> k \<Longrightarrow>
        start < k \<Longrightarrow> tooLong bl (seg nicks start k) \<Longrightarrow>
        P (Suc k) (k - 1) (gs @ [seg nicks start (k - 1)])"
    and k: "k \<le> length nicks"
  shows "\<exists>start gs. groups_loop bl nicks [0..<k] (0, []) = Some (start, gs) \<and>
           P k start gs \<and> (start = 0 \<or> start + 2 \<le> k)"
  using groups_loop_invariant_from [of P 0 0 "[]" nicks bl k] init keep split k by simp

lemma NamesReply_groups_run:
  assumes "groups_loop bl nicks [0..<length nicks] (0, []) = Some (start, gs)"
    and "start = 0 \<or> start + 2 \<le> length nicks"
  shows "NamesReply_groups bl nicks =
     Some (if 2 \<le> length nicks then gs @ [seg nicks start (length nicks)] else gs)"
proof -
  have "int start < int (length nicks) - 1 \<longleftrightarrow> 2 \<le> length nicks"
    using assms(2) by auto
  moreover have "2 \<le> length nicks \<Longrightarrow> slice nicks start (length nicks) = Some (seg nicks start (length nicks))"
    using assms(2) by (intro slice_Some) auto
  ultimately show ?thesis
    using assms(1) by (simp add: NamesReply_groups_def)
qed


subsection \<open>Coverage and the number of groups\<close>

lemma take_seg: "lo \<le> hi \<Longrightarrow> take lo s @ seg s lo hi = take hi s"
  unfolding seg_def by (metis le_add_diff_inverse take_add)

lemma seg_to_end: "seg s lo (length s) = drop lo s"
  by (simp add: seg_def)

lemma NamesReply_groups_coverage:
  "\<exists>gs. NamesReply_groups bl nicks = Some gs \<and>
         concat gs = (if length nicks = 1 then [] else nicks)"
proof -
  obtain start gs where run: "groups_loop bl nicks [0..<length nicks] (0, []) = Some (start, gs)"
    and cov: "concat gs = take start nicks" and st: "start = 0 \<or> start + 2 \<le> length nicks"
    using groups_loop_invariant [of "\<lambda>k start gs. concat gs = take start nicks" nicks bl "length nicks"]
    by (auto simp: take_seg)
  show ?thesis
  proof (cases "2 \<le> length nicks")
    case True
    then show ?thesis
      using NamesReply_groups_run [OF run st] cov by (simp add: seg_to_end)
  next
    case False
    then have "start = 0" using st by auto
    then have "concat gs = []" using cov by simp
    moreover have "length nicks \<noteq> 1 \<Longrightarrow> nicks = []" using False by (cases nicks) (auto simp: Suc_le_eq)
    ultimately show ?thesis
      using NamesReply_groups_run [OF run st] False by auto
  qed
qed

lemma NamesReply_groups_count:
  "\<exists>gs. NamesReply_groups bl nicks = Some gs \<and> length gs \<le> length nicks"
proof -
  have "\<exists>start gs. groups_loop bl nicks [0..<length nicks] (0, []) = Some (start, gs) \<and>
      length gs \<le> length nicks - 1 \<and> (start = 0 \<or> start + 2 \<le> length nicks)"
  proof (rule groups_loop_invariant)
    show "length ([] :: string list list) \<le> 0 - 1" by simp
  next
    fix k start and gs :: "string list list"
    assume "length gs \<le> k - 1"
    then show "length gs \<le> Suc k - 1" by simp
  next
    fix k start and gs :: "string list list"
    assume "length gs \<le> k - 1" "start < k"
    then show "length (gs @ [seg nicks start (k - 1)]) \<le> Suc k - 1" by simp
  qed simp
  then obtain start gs where run: "groups_loop bl nicks [0..<length nicks] (0, []) = Some (start, gs)"
    and cnt: "length gs \<le> length nicks - 1" and st: "start = 0 \<or> start + 2 \<le> length nicks"
    by blast
  show ?thesis
    using NamesReply_groups_run [OF run st] cnt by auto
qed
subsection \<open>Lengths and the budget\<close>

lemma fold_add_length:
  "fold (\<lambda>nm l. l + int (length nm)) names a = a + (\<Sum>nm\<leftarrow>names. int (length nm))"
  by (induction names arbitrary: a) simp_all

lemma joinedLen_sum:
  "joinedLen names = int (length names) - 1 + (\<Sum>nm\<leftarrow>names. int (length nm))"
  by (simp add: joinedLen_def fold_add_length)

lemma length_Join_space:
  "names \<noteq> [] \<Longrightarrow> int (length (Join names '' '')) = joinedLen names"
  by (induction names "'' ''" rule: Join.induct) (simp_all add: joinedLen_sum)

lemma group_line_append:
  "group_line K ch client names = group_line K ch client [] @ Join names '' ''"
  by (simp add: group_line_def NumericReply_FormatString_def RplNamReply_def NewNumericReply_def)

lemma length_group_line:
  "int (length (group_line K ch client names)) =
   prefixLen K ch client + int (length (Join names '' ''))"
  using group_line_append [of K ch client names] by (simp add: prefixLen_def)

lemma seg_single: "lo < length s \<Longrightarrow> seg s lo (Suc lo) = [s ! lo]"
  by (simp add: seg_def take_Suc_conv_app_nth hd_drop_conv_nth take_Suc)

lemma seg_Nil_iff: "hi \<le> length s \<Longrightarrow> seg s lo hi = [] \<longleftrightarrow> hi \<le> lo"
  by (auto simp: seg_def)

lemma fits_single: "fits bl [nm] \<longleftrightarrow> bl + int (length nm) \<le> MAX_REPLY_LEN"
  by (simp add: fits_def)

lemma not_tooLong_fits: "names \<noteq> [] \<Longrightarrow> \<not> tooLong bl names \<longleftrightarrow> fits bl names"
  by (auto simp: tooLong_def fits_def length_Join_space)

lemma groups_loop_budget:
  assumes each: "\<forall>nm\<in>set nicks. fits bl [nm]"
  shows "\<exists>start gs. groups_loop bl nicks [0..<length nicks] (0, []) = Some (start, gs) \<and>
      ((\<forall>g\<in>set gs. fits bl g) \<and> (start + 1 < length nicks \<longrightarrow> fits bl (seg nicks start (length nicks - 1)))) \<and>
      (start = 0 \<or> start + 2 \<le> length nicks)"
proof (rule groups_loop_invariant
    [of "\<lambda>k start gs. (\<forall>g\<in>set gs. fits bl g) \<and> (start + 1 < k \<longrightarrow> fits bl (seg nicks start (k - 1)))"])
  show "(\<forall>g\<in>set ([] :: string list list). fits bl g) \<and> (0 + 1 < (0::nat) \<longrightarrow> fits bl (seg nicks 0 (0 - 1)))"
    by simp
next
  fix k start and gs :: "string list list"
  assume k: "k < length nicks"
    and inv: "(\<forall>g\<in>set gs. fits bl g) \<and> (start + 1 < k \<longrightarrow> fits bl (seg nicks start (k - 1)))"
    and st: "start = 0 \<or> start + 2 \<le> k"
    and no: "\<not> (start < k \<and> tooLong bl (seg nicks start k))"
  have "fits bl (seg nicks start k)" if "start + 1 < Suc k"
  proof -
    have "start < k" using that by simp
    then have "\<not> tooLong bl (seg nicks start k)" using no by simp
    moreover have "seg nicks start k \<noteq> []" using \<open>start < k\<close> k by (simp add: seg_Nil_iff)
    ultimately show ?thesis by (simp add: not_tooLong_fits)
  qed
  then show "(\<forall>g\<in>set gs. fits bl g) \<and> (start + 1 < Suc k \<longrightarrow> fits bl (seg nicks start (Suc k - 1)))"
    using inv by simp
next
  fix k start and gs :: "string list list"
  assume k: "k < length nicks"
    and inv: "(\<forall>g\<in>set gs. fits bl g) \<and> (start + 1 < k \<longrightarrow> fits bl (seg nicks start (k - 1)))"
    and st: "start = 0 \<or> start + 2 \<le> k"
    and lt: "start < k" and long: "tooLong bl (seg nicks start k)"
  have "start + 1 < k"
  proof (rule ccontr)
    assume "\<not> start + 1 < k"
    then have k_eq: "k = Suc start" using lt by simp
    have "fits bl [nicks ! start]" using each lt k by simp
    then have "\<not> tooLong bl (seg nicks start k)"
      using k lt by (simp add: k_eq seg_single not_tooLong_fits)
    then show False using long by simp
  qed
  then have emitted: "fits bl (seg nicks start (k - 1))" using inv by simp
  have next_single: "fits bl (seg nicks (k - 1) k)"
    using each k lt seg_single [of "k - 1" nicks] by simp
  show "(\<forall>g\<in>set (gs @ [seg nicks start (k - 1)]). fits bl g) \<and>
        (k - 1 + 1 < Suc k \<longrightarrow> fits bl (seg nicks (k - 1) (Suc k - 1)))"
    using inv emitted next_single by simp
qed simp
subsection \<open>The group that begins at a cursor\<close>

lemma take_seg_seg: "i \<le> m \<Longrightarrow> take (i - lo) (seg s lo m) = seg s lo i"
  by (simp add: seg_def min_def)

lemma groups_loop_start_bound:
  assumes "groups_loop bl nicks [0..<i] (0, []) = Some (start, gs)" "i \<le> length nicks"
  shows "start = 0 \<or> start + 2 \<le> i"
  using groups_loop_invariant [of "\<lambda>k start gs. True" nicks bl i] assms by auto

lemma groups_exact_fit:
  assumes at: "groups_loop bl nicks [0..<i] (0, []) = Some (start, gs)"
    and lt: "start < i" and i: "i < length nicks"
    and exact: "\<not> tooLong bl (seg nicks start i)"
  shows "\<exists>g rest. NamesReply_groups bl nicks = Some (gs @ g # rest) \<and>
           take (i - start) g = seg nicks start i"
proof -
  let ?n = "length nicks"
  let ?P = "\<lambda>k s g. (s = start \<and> g = gs) \<or>
      (\<exists>g' rest. g = gs @ g' # rest \<and> take (i - start) g' = seg nicks start i)"
  have st0: "start = 0 \<or> start + 2 \<le> i"
    using groups_loop_start_bound [OF at] i by simp
  have "\<exists>s g. groups_loop bl nicks [i..<?n] (start, gs) = Some (s, g) \<and> ?P ?n s g \<and>
      (s = 0 \<or> s + 2 \<le> ?n)"
  proof (rule groups_loop_invariant_from [of ?P i start gs])
    show "?P i start gs" by simp
  next
    show "start = 0 \<or> start + 2 \<le> i" by (rule st0)
  next
    fix k s and g :: "string list list"
    assume "?P k s g"
    then show "?P (Suc k) s g" .
  next
    fix k s and g :: "string list list"
    assume ik: "i \<le> k" and k: "k < ?n" and P: "?P k s g" and sk: "s < k"
      and long: "tooLong bl (seg nicks s k)"
    from P show "?P (Suc k) (k - 1) (g @ [seg nicks s (k - 1)])"
    proof
      assume same: "s = start \<and> g = gs"
      have "k \<noteq> i" using long exact same by auto
      then have "i \<le> k - 1" using ik by simp
      then have "take (i - start) (seg nicks start (k - 1)) = seg nicks start i"
        by (rule take_seg_seg)
      then show ?thesis using same by auto
    next
      assume "\<exists>g' rest. g = gs @ g' # rest \<and> take (i - start) g' = seg nicks start i"
      then show ?thesis by auto
    qed
  next
    show "i \<le> ?n" using i by simp
  qed simp
  then obtain s g where rest: "groups_loop bl nicks [i..<?n] (start, gs) = Some (s, g)"
    and P: "?P ?n s g" and st: "s = 0 \<or> s + 2 \<le> ?n"
    by blast
  have "[0..<?n] = [0..<i] @ [i..<?n]"
    using i upt_add_eq_append [of 0 i "?n - i"] by simp
  then have run: "groups_loop bl nicks [0..<?n] (0, []) = Some (s, g)"
    using at rest by (simp add: groups_loop_append)
  have two: "2 \<le> ?n" using lt i by simp
  have final: "NamesReply_groups bl nicks = Some (g @ [seg nicks s ?n])"
    using NamesReply_groups_run [OF run st] two by simp
  from P show ?thesis
  proof
    assume same: "s = start \<and> g = gs"
    have "take (i - start) (seg nicks start ?n) = seg nicks start i"
      using i by (intro take_seg_seg) simp
    then show ?thesis using final same by simp
  next
    assume "\<exists>g' rest. g = gs @ g' # rest \<and> take (i - start) g' = seg nicks start i"
    then show ?thesis using final by auto
  qed
qed

subsection \<open>Evaluation at the concrete inputs\<close>

lemmas concrete_defs = irc_numerics_def srv_def room_def recipient_def

lemma fmt_353: "fmt_03d 353 = ''353''"
  by (simp add: fmt_03d_def pad0_def decimal.simps [of 353] decimal.simps [of 35] decimal.simps [of 3] digit_def)

lemma fmt_366: "fmt_03d 366 = ''366''"
  by (simp add: fmt_03d_def pad0_def decimal.simps [of 366] decimal.simps [of 36] decimal.simps [of 3] digit_def)

lemma group_line_room:
  "group_line irc_numerics (room ms) (recipient n) g = '':srv 353 '' @ n @ '' = #go :'' @ Join g '' ''"
  by (simp add: group_line_def NumericReply_FormatString_def RplNamReply_def NewNumericReply_def
      concrete_defs fmt_353)

lemma end_line_room:
  "end_line irc_numerics (room ms) (recipient n) = '':#go 366 '' @ n @ '' :End of NAMES list''"
  by (simp add: end_line_def NumericReply_FormatString_def RplEndOfNames_def NewNumericReply_def
      concrete_defs fmt_366)

lemma prefixLen_room: "prefixLen irc_numerics (room ms) (recipient n) = 17 + int (length n)"
  by (simp add: prefixLen_def group_line_room)

lemma Nicks_room: "Nicks (room ms) = ms"
  by (simp add: room_def)

lemmas run_defs = NamesReply_groups_def groups_step_def slice_def tooLong_def joinedLen_def
  MAX_REPLY_LEN_def upt_rec

text \<open>A run in which no prefix of the members is too long emits nothing in the loop.\<close>

lemma groups_loop_no_split:
  assumes "\<And>k. k < length nicks \<Longrightarrow> \<not> tooLong bl (seg nicks 0 k)"
  shows "groups_loop bl nicks [0..<length nicks] (0, []) = Some (0, [])"
proof -
  have "\<exists>start gs. groups_loop bl nicks [0..<length nicks] (0, []) = Some (start, gs) \<and>
      (start = 0 \<and> gs = []) \<and> (start = 0 \<or> start + 2 \<le> length nicks)"
  proof (rule groups_loop_invariant [of "\<lambda>k start gs. start = 0 \<and> gs = []"])
    fix k start and gs :: "string list list"
    assume "k < length nicks" "start = 0 \<and> gs = []" "tooLong bl (seg nicks start k)"
    then show "k - 1 = 0 \<and> gs @ [seg nicks start (k - 1)] = []"
      using assms [of k] by simp
  qed simp_all
  then show ?thesis by auto
qed

lemma joinedLen_replicate: "joinedLen (replicate n x) = int n - 1 + int n * int (length x)"
  by (simp add: joinedLen_sum sum_list_replicate)

lemma seg_replicate: "hi \<le> n \<Longrightarrow> seg (replicate n x) 0 hi = replicate hi x"
  by (simp add: seg_def min_def)

lemma crowd_run:
  "NamesReply_groups (prefixLen irc_numerics (room crowd) (recipient ''bob'')) crowd = Some [crowd]"
proof -
  let ?bl = "prefixLen irc_numerics (room crowd) (recipient ''bob'')"
  have "\<not> tooLong ?bl (seg crowd 0 k)" if "k < length crowd" for k
    using that
    by (simp add: crowd_def seg_replicate joinedLen_replicate tooLong_def prefixLen_room
        MAX_REPLY_LEN_def)
  then have "groups_loop ?bl crowd [0..<length crowd] (0, []) = Some (0, [])"
    by (rule groups_loop_no_split)
  then have "NamesReply_groups ?bl crowd =
      Some (if 2 \<le> length crowd then [] @ [seg crowd 0 (length crowd)] else [])"
    by (intro NamesReply_groups_run) simp_all
  then show ?thesis by (simp add: seg_to_end) (simp add: crowd_def)
qed

lemma length_Join_crowd: "length (Join crowd '' '') = 494"
proof -
  have "int (length (Join crowd '' '')) = joinedLen crowd"
    by (rule length_Join_space) (simp add: crowd_def)
  then show ?thesis by (simp add: crowd_def joinedLen_replicate)
qed

subsection \<open>The format of the code\<close>

lemma fmt_03d_three_digits:
  assumes "0 \<le> n" "n \<le> 999"
  shows "fmt_03d n = [digit (nat n div 100), digit (nat n div 10 mod 10), digit (nat n mod 10)]"
proof -
  define m where "m = nat n"
  have m: "m < 1000" using assms by (simp add: m_def)
  have d0: "digit 0 = CHR ''0''" by (simp add: digit_def)
  consider "m < 10" | "10 \<le> m" "m < 100" | "100 \<le> m" by linarith
  then have "pad0 3 (decimal m) = [digit (m div 100), digit (m div 10 mod 10), digit (m mod 10)]"
  proof cases
    case 1
    then show ?thesis by (simp add: decimal.simps [of m] pad0_def d0 numeral_2_eq_2)
  next
    case 2
    then have "m div 10 < 10" by simp
    then show ?thesis using 2
      by (simp add: decimal.simps [of m] decimal.simps [of "m div 10"] pad0_def d0)
  next
    case 3
    then have "\<not> m div 10 < 10" "m div 10 div 10 < 10" "m div 10 div 10 = m div 100" using m by simp_all
    then show ?thesis using 3
      by (simp add: decimal.simps [of m] decimal.simps [of "m div 10"] decimal.simps [of "m div 100"] pad0_def)
  qed
  then show ?thesis using assms by (simp add: fmt_03d_def m_def)
qed

section \<open>The claims\<close>

subsection \<open>The budget of 510 bytes\<close>

text \<open>
  What the code does keep within the budget: the lines that the scanning loop writes, when
  each member fits on a line of its own. The loop emits \<^verbatim>\<open>nicks[start:i-1]\<close> only after
  \<^verbatim>\<open>tooLong\<close> has passed it. These lines are the groups recorded by
  \<^const>\<open>groups_loop\<close>, the first lines of what \<^verbatim>\<open>Format\<close> writes.
\<close>

lemma scan_lines_within_budget:
  fixes h :: heap and reply :: NamesReply
  defines "ch \<equiv> h (channel reply)"
  assumes each: "\<forall>nm\<in>set (Nicks ch). int (length (group_line K ch client [nm])) \<le> MAX_REPLY_LEN"
  shows "\<exists>start gs rest.
           groups_loop (prefixLen K ch client) (Nicks ch) [0..<length (Nicks ch)] (0, []) =
             Some (start, gs) \<and>
           Format_loop K ch client (prefixLen K ch client) (Nicks ch) [0..<length (Nicks ch)] (0, w) =
             Some (start, w @ map (group_line K ch client) gs) \<and>
           NamesReply_Format K h reply client w = Some (w @ map (group_line K ch client) gs @ rest) \<and>
           (\<forall>g\<in>set gs. int (length (group_line K ch client g)) \<le> MAX_REPLY_LEN)"
proof -
  let ?bl = "prefixLen K ch client"
  let ?nicks = "Nicks ch"
  have "\<forall>nm\<in>set ?nicks. fits ?bl [nm]"
    using each by (simp add: fits_def length_group_line)
  then obtain start gs
    where run: "groups_loop ?bl ?nicks [0..<length ?nicks] (0, []) = Some (start, gs)"
      and ok: "\<forall>g\<in>set gs. fits ?bl g"
      and st: "start = 0 \<or> start + 2 \<le> length ?nicks"
    using groups_loop_budget [of ?nicks ?bl] by blast
  have loop: "Format_loop K ch client ?bl ?nicks [0..<length ?nicks] (0, w) =
      Some (start, w @ map (group_line K ch client) gs)"
    using Format_loop_groups [of K ch client ?bl ?nicks "[0..<length ?nicks]" 0 w "[]"] run
    by simp
  have "\<exists>rest. NamesReply_Format K h reply client w = Some (w @ map (group_line K ch client) gs @ rest)"
    using NamesReply_groups_run [OF run st]
    by (simp add: NamesReply_Format_groups ch_def)
  moreover have "\<forall>g\<in>set gs. int (length (group_line K ch client g)) \<le> MAX_REPLY_LEN"
    using ok by (simp add: fits_def length_group_line)
  ultimately show ?thesis using run loop by blast
qed

text \<open>
  Claim C1. The claim: every line emitted by \<^verbatim>\<open>Format\<close> of a names reply, rendered
  for the recipient, is at most 510 bytes long. The code: the group of the final flush,
  \<^verbatim>\<open>nicks[start:]\<close>, is written without being put to \<^verbatim>\<open>tooLong\<close>; the loop tests
  \<^verbatim>\<open>nicks[start:i]\<close> for \<open>i < len(nicks)\<close> only, so the last member is never counted.
  For the recipient \<open>bob\<close> the prefix is 20 bytes long. In the room of 55 members with
  names of 8 bytes each member fits on a line of its own (28 bytes), the loop emits
  nothing, and the final flush writes all 55 on one line of 514 bytes. In the room of two
  members of 480 and 10 bytes each fits alone as well, and the one group line is 511 bytes
  long.
\<close>

theorem final_flush_over_budget:
  "list_all (\<lambda>nm. int (length (group_line irc_numerics (room crowd) (recipient ''bob'') [nm]))
       \<le> MAX_REPLY_LEN) crowd \<and>
   NamesReply_groups (prefixLen irc_numerics (room crowd) (recipient ''bob'')) (Nicks (room crowd)) =
     Some [crowd] \<and>
   map_option (map (\<lambda>l. int (length l)))
     (NamesReply_Format irc_numerics (\<lambda>_. room crowd) (NewNamesReply 0) (recipient ''bob'') []) =
     Some [514, 31] \<and>
   list_all (\<lambda>nm. int (length (group_line irc_numerics
        (room [replicate 480 (CHR ''a''), ''0123456789'']) (recipient ''bob'') [nm])) \<le> MAX_REPLY_LEN)
     [replicate 480 (CHR ''a''), ''0123456789''] \<and>
   map_option (map (\<lambda>l. int (length l)))
     (NamesReply_Format irc_numerics (\<lambda>_. room [replicate 480 (CHR ''a''), ''0123456789''])
        (NewNamesReply 0) (recipient ''bob'') []) =
     Some [511, 31] \<and>
   MAX_REPLY_LEN < 511"
proof -
  have "list_all (\<lambda>nm. int (length (group_line irc_numerics (room crowd) (recipient ''bob'') [nm]))
      \<le> MAX_REPLY_LEN) crowd"
    by (simp add: list_all_iff crowd_def group_line_room MAX_REPLY_LEN_def)
  moreover have "NamesReply_groups (prefixLen irc_numerics (room crowd) (recipient ''bob''))
      (Nicks (room crowd)) = Some [crowd]"
    by (simp add: Nicks_room crowd_run)
  moreover have "map_option (map (\<lambda>l. int (length l)))
      (NamesReply_Format irc_numerics (\<lambda>_. room crowd) (NewNamesReply 0) (recipient ''bob'') []) =
      Some [514, 31]"
    by (simp add: NamesReply_Format_groups NewNamesReply_def Nicks_room crowd_run
        group_line_room end_line_room length_Join_crowd)
  moreover have "list_all (\<lambda>nm. int (length (group_line irc_numerics
      (room [replicate 480 (CHR ''a''), ''0123456789'']) (recipient ''bob'') [nm])) \<le> MAX_REPLY_LEN)
      [replicate 480 (CHR ''a''), ''0123456789'']"
    by (simp add: group_line_room MAX_REPLY_LEN_def)
  moreover have "map_option (map (\<lambda>l. int (length l)))
      (NamesReply_Format irc_numerics (\<lambda>_. room [replicate 480 (CHR ''a''), ''0123456789''])
        (NewNamesReply 0) (recipient ''bob'') []) = Some [511, 31]"
    by (simp add: NamesReply_Format_groups NewNamesReply_def end_line_room prefixLen_room
        group_line_room Nicks_room run_defs)
  moreover have "MAX_REPLY_LEN < 511"
    by (simp add: MAX_REPLY_LEN_def)
  ultimately show ?thesis by blast
qed

subsection \<open>Coverage of the members\<close>

text \<open>
  What the groups of a run cover, for every member sequence and every prefix length: the
  groups, in order, are the member sequence itself, unless the sequence has exactly one
  member; then there is no group at all.
\<close>

lemma NamesReply_Format_coverage:
  fixes h :: heap and reply :: NamesReply
  defines "ch \<equiv> h (channel reply)"
  shows "\<exists>gs. NamesReply_groups (prefixLen K ch client) (Nicks ch) = Some gs \<and>
           NamesReply_Format K h reply client w =
             Some (w @ map (group_line K ch client) gs @ [end_line K ch client]) \<and>
           concat gs = (if length (Nicks ch) = 1 then [] else Nicks ch)"
  using NamesReply_groups_coverage [of "prefixLen K ch client" "Nicks ch"]
  by (auto simp: NamesReply_Format_groups ch_def)

text \<open>
  Claim C2. The claim: for every non-empty member sequence whose members each fit in some
  group, the groups emitted by \<^verbatim>\<open>Format\<close>, concatenated in order, are the member
  sequence. The code at the room whose only member is \<open>alice\<close>: the run has no group, and
  \<^verbatim>\<open>Format\<close> writes the terminator alone, so the concatenation is empty and \<open>alice\<close>
  is lost. The final flush tests \<^verbatim>\<open>start < len(nicks) - 1\<close>, which is false for one
  member.
\<close>

theorem single_member_not_covered:
  "NamesReply_groups (prefixLen irc_numerics (room [''alice'']) (recipient ''bob''))
     (Nicks (room [''alice''])) = Some [] \<and>
   NamesReply_Format irc_numerics (\<lambda>_. room [''alice'']) (NewNamesReply 0) (recipient ''bob'') [] =
     Some (map (group_line irc_numerics (room [''alice'']) (recipient ''bob'')) [] @
           [end_line irc_numerics (room [''alice'']) (recipient ''bob'')]) \<and>
   concat ([] :: string list list) \<noteq> Nicks (room [''alice''])"
  by (simp add: NamesReply_Format_groups NewNamesReply_def Nicks_room prefixLen_room run_defs)

text \<open>
  Claim C3. The claim: for the member sequence \<open>[alice]\<close>, \<^verbatim>\<open>Format\<close> emits two
  lines, a group line whose member list is \<open>alice\<close> and the terminator. The code emits one
  line, the terminator.
\<close>

theorem single_member_only_terminator:
  "NamesReply_Format irc_numerics (\<lambda>_. room [''alice'']) (NewNamesReply 0) (recipient ''bob'') [] =
     Some ['':#go 366 bob :End of NAMES list'']"
  by (simp add: NamesReply_Format_groups NewNamesReply_def Nicks_room prefixLen_room
      end_line_room run_defs)

subsection \<open>The terminator\<close>

text \<open>
  Claim C4. For every member sequence, \<^verbatim>\<open>Format\<close> writes the lines of a sequence of
  replies that ends with the reply \<^verbatim>\<open>RplEndOfNames\<close>, whose message is the literal
  \<open>:End of NAMES list\<close>; every reply before it is a \<^verbatim>\<open>RplNamReply\<close> of a group, and none of
  those has that message, so there is exactly one terminator and it is last. For no
  members there is no group: the output is the terminator line alone.
\<close>

theorem one_terminator_last:
  fixes h :: heap and reply :: NamesReply
  defines "ch \<equiv> h (channel reply)"
  shows "\<exists>gs. NamesReply_groups (prefixLen K ch client) (Nicks ch) = Some gs \<and>
           NamesReply_Format K h reply client w =
             Some (w @ map (\<lambda>r. NumericReply_FormatString r client)
                        (map (RplNamReply K ch) gs @ [RplEndOfNames K (channel_ident ch)])) \<and>
           message (RplEndOfNames K (channel_ident ch)) = '':End of NAMES list'' \<and>
           (\<forall>g\<in>set gs. message (RplNamReply K ch g) \<noteq> '':End of NAMES list'') \<and>
           (Nicks ch = [] \<longrightarrow> gs = [])"
proof -
  obtain gs where gs: "NamesReply_groups (prefixLen K ch client) (Nicks ch) = Some gs"
    and cov: "concat gs = (if length (Nicks ch) = 1 then [] else Nicks ch)"
    and cnt: "length gs \<le> length (Nicks ch)"
    using NamesReply_groups_coverage [of "prefixLen K ch client" "Nicks ch"]
      NamesReply_groups_count [of "prefixLen K ch client" "Nicks ch"]
    by auto
  have "NamesReply_Format K h reply client w =
      Some (w @ map (\<lambda>r. NumericReply_FormatString r client)
                 (map (RplNamReply K ch) gs @ [RplEndOfNames K (channel_ident ch)]))"
    using gs by (simp add: NamesReply_Format_groups ch_def group_line_def end_line_def comp_def)
  moreover have "message (RplEndOfNames K (channel_ident ch)) = '':End of NAMES list''"
    by (simp add: RplEndOfNames_def NewNumericReply_def)
  moreover have "\<forall>g\<in>set gs. message (RplNamReply K ch g) \<noteq> '':End of NAMES list''"
    by (simp add: RplNamReply_def NewNumericReply_def)
  moreover have "Nicks ch = [] \<longrightarrow> gs = []"
    using cnt by auto
  ultimately show ?thesis using gs by blast
qed

text \<open>The theorem at the empty room: one line, the terminator.\<close>

theorem one_terminator_last_witness:
  "NamesReply_Format irc_numerics (\<lambda>_. room []) (NewNamesReply 0) (recipient ''bob'') [] =
     Some ['':#go 366 bob :End of NAMES list'']"
proof -
  have render: "NumericReply_FormatString (RplEndOfNames irc_numerics (channel_ident (room [])))
      (recipient ''bob'') = '':#go 366 bob :End of NAMES list''"
    using end_line_room [of "[]" "''bob''"] by (simp add: end_line_def)
  show ?thesis
    using one_terminator_last [where h = "\<lambda>_. room []" and reply = "NewNamesReply 0"
        and K = irc_numerics and client = "recipient ''bob''" and w = "[]"]
    by (auto simp: Nicks_room render)
qed

subsection \<open>When the membership is read\<close>

text \<open>
  Claim C5, as amended. \<^verbatim>\<open>NewNamesReply\<close> keeps the pointer to the channel and no copy of
  its members; \<^verbatim>\<open>Format\<close> reads the members through the pointer when it runs. So the
  member sequence of a names reply is the membership at the time of encoding: when the
  members of the channel become \<open>ns\<close> after the reply was built, the groups of the run are
  the groups of \<open>ns\<close>, and the lines are theirs.
\<close>

theorem Format_reads_membership_when_encoding:
  fixes h :: heap and c :: ref
  defines "ch \<equiv> h c"
  shows "\<exists>gs. NamesReply_groups (prefixLen K ch client) ns = Some gs \<and>
           NamesReply_Format K (h(c := ch\<lparr>Nicks := ns\<rparr>)) (NewNamesReply c) client w =
             Some (w @ map (group_line K ch client) gs @ [end_line K ch client])"
proof -
  let ?ch' = "ch\<lparr>Nicks := ns\<rparr>"
  have same: "group_line K ?ch' client = group_line K ch client"
    "end_line K ?ch' client = end_line K ch client"
    "prefixLen K ?ch' client = prefixLen K ch client"
    by (simp_all add: fun_eq_iff group_line_def end_line_def prefixLen_def RplNamReply_def
        RplEndOfNames_def)
  obtain gs where "NamesReply_groups (prefixLen K ch client) ns = Some gs"
    using NamesReply_groups_count [of "prefixLen K ch client" ns] by blast
  then show ?thesis
    by (simp add: NamesReply_Format_groups NewNamesReply_def same)
qed

text \<open>
  The claim as stated, that the lines are those of the membership at construction, fails:
  the reply is built while \<open>alice\<close> and \<open>bob\<close> are in the room, \<open>carol\<close> joins, and
  \<^verbatim>\<open>Format\<close> lists all three.
\<close>

theorem snapshot_counterexample:
  "NamesReply_Format irc_numerics ((\<lambda>_. room [''alice'', ''bob''])(0 := room [''alice'', ''bob'', ''carol'']))
     (NewNamesReply 0) (recipient ''dave'') [] =
     Some ['':srv 353 dave = #go :alice bob carol'', '':#go 366 dave :End of NAMES list''] \<and>
   NamesReply_Format irc_numerics ((\<lambda>_. room [''alice'', ''bob''])(0 := room [''alice'', ''bob'', ''carol'']))
     (NewNamesReply 0) (recipient ''dave'') [] \<noteq>
   NamesReply_Format irc_numerics (\<lambda>_. room [''alice'', ''bob''])
     (NewNamesReply 0) (recipient ''dave'') []"
  by (simp add: NamesReply_Format_groups NewNamesReply_def Nicks_room prefixLen_room
      group_line_room end_line_room run_defs)

subsection \<open>Two recipients\<close>

text \<open>
  Claim C6. For every member sequence and any two recipients, the groups emitted for the
  one and the groups emitted for the other, each concatenated in order, are the same
  sequence of members, whatever the lengths of the recipients' names.
\<close>

theorem recipients_same_coverage:
  fixes h :: heap and reply :: NamesReply
  defines "ch \<equiv> h (channel reply)"
  shows "\<exists>gs1 gs2.
           NamesReply_groups (prefixLen K ch client1) (Nicks ch) = Some gs1 \<and>
           NamesReply_Format K h reply client1 w1 =
             Some (w1 @ map (group_line K ch client1) gs1 @ [end_line K ch client1]) \<and>
           NamesReply_groups (prefixLen K ch client2) (Nicks ch) = Some gs2 \<and>
           NamesReply_Format K h reply client2 w2 =
             Some (w2 @ map (group_line K ch client2) gs2 @ [end_line K ch client2]) \<and>
           concat gs1 = concat gs2"
proof -
  obtain gs1 where "NamesReply_groups (prefixLen K ch client1) (Nicks ch) = Some gs1"
    "NamesReply_Format K h reply client1 w1 =
       Some (w1 @ map (group_line K ch client1) gs1 @ [end_line K ch client1])"
    "concat gs1 = (if length (Nicks ch) = 1 then [] else Nicks ch)"
    using NamesReply_Format_coverage [of K h reply client1 w1] unfolding ch_def by blast
  moreover obtain gs2 where "NamesReply_groups (prefixLen K ch client2) (Nicks ch) = Some gs2"
    "NamesReply_Format K h reply client2 w2 =
       Some (w2 @ map (group_line K ch client2) gs2 @ [end_line K ch client2])"
    "concat gs2 = (if length (Nicks ch) = 1 then [] else Nicks ch)"
    using NamesReply_Format_coverage [of K h reply client2 w2] unfolding ch_def by blast
  ultimately show ?thesis by simp
qed

text \<open>
  The theorem at two recipients whose names are 3 and 10 bytes long: the boundaries of the
  groups differ, the members covered are the same.
\<close>

theorem recipients_same_coverage_witness:
  "NamesReply_groups (prefixLen irc_numerics (room exact_nicks) (recipient ''bob'')) exact_nicks =
     Some [take 2 exact_nicks, drop 2 exact_nicks] \<and>
   NamesReply_groups (prefixLen irc_numerics (room exact_nicks) (recipient ''bob_at_sea'')) exact_nicks =
     Some [take 1 exact_nicks, drop 1 exact_nicks] \<and>
   (\<exists>gs1 gs2.
      NamesReply_groups (prefixLen irc_numerics (room exact_nicks) (recipient ''bob'')) exact_nicks =
        Some gs1 \<and>
      NamesReply_groups (prefixLen irc_numerics (room exact_nicks) (recipient ''bob_at_sea'')) exact_nicks =
        Some gs2 \<and>
      concat gs1 = concat gs2)"
proof -
  have "\<exists>gs1 gs2.
      NamesReply_groups (prefixLen irc_numerics (room exact_nicks) (recipient ''bob'')) exact_nicks =
        Some gs1 \<and>
      NamesReply_groups (prefixLen irc_numerics (room exact_nicks) (recipient ''bob_at_sea'')) exact_nicks =
        Some gs2 \<and>
      concat gs1 = concat gs2"
    using recipients_same_coverage [where h = "\<lambda>_. room exact_nicks" and reply = "NewNamesReply 0"
        and K = irc_numerics and ?client1.0 = "recipient ''bob''"
        and ?client2.0 = "recipient ''bob_at_sea''" and ?w1.0 = "[]" and ?w2.0 = "[]"]
    by (auto simp: Nicks_room)
  moreover have "NamesReply_groups (prefixLen irc_numerics (room exact_nicks) (recipient ''bob''))
      exact_nicks = Some [take 2 exact_nicks, drop 2 exact_nicks]"
    by (simp add: prefixLen_room exact_nicks_def run_defs)
  moreover have "NamesReply_groups (prefixLen irc_numerics (room exact_nicks) (recipient ''bob_at_sea''))
      exact_nicks = Some [take 1 exact_nicks, drop 1 exact_nicks]"
    by (simp add: prefixLen_room exact_nicks_def run_defs)
  ultimately show ?thesis by simp
qed

subsection \<open>A group that fills the budget exactly\<close>

text \<open>
  What the code does for two members or more. Let the scan stand before index \<open>i\<close> with
  the cursor \<open>start < i\<close>, after the groups \<open>gs\<close>, and let \<open>names\<close> be the members from
  \<open>start\<close> up to the one before \<open>i\<close>. The iteration leaves the cursor and the output as
  they are if and only if the prefix and the joined members are at most 510 bytes long. When
  the length is exactly 510, the group emitted next, the one that begins at \<open>start\<close>,
  holds all of \<open>names\<close>, its last member included.
\<close>

lemma exact_fit_member_kept:
  fixes h :: heap and reply :: NamesReply
  defines "ch \<equiv> h (channel reply)"
  assumes cursor: "groups_loop (prefixLen K ch client) (Nicks ch) [0..<i] (0, []) = Some (start, gs)"
    and lt: "start < i" and i: "i < length (Nicks ch)"
    and names: "slice (Nicks ch) start i = Some names"
  shows "(Format_step K ch client (prefixLen K ch client) (Nicks ch) i (start, w') = Some (start, w') \<longleftrightarrow>
            prefixLen K ch client + joinedLen names \<le> MAX_REPLY_LEN) \<and>
         (prefixLen K ch client + joinedLen names = MAX_REPLY_LEN \<longrightarrow>
            (\<exists>g rest.
               NamesReply_groups (prefixLen K ch client) (Nicks ch) = Some (gs @ g # rest) \<and>
               NamesReply_Format K h reply client w =
                 Some (w @ map (group_line K ch client) (gs @ g # rest) @ [end_line K ch client]) \<and>
               take (length names) g = names))"
proof -
  let ?bl = "prefixLen K ch client"
  let ?nicks = "Nicks ch"
  have seg: "names = seg ?nicks start i"
    using names lt i by (simp add: slice_def seg_def split: if_splits)
  have len: "length (seg ?nicks start i) = i - start"
    using lt i by (simp add: seg_def)
  have before: "slice ?nicks start (i - 1) = Some (seg ?nicks start (i - 1))"
    using lt i by (intro slice_Some) simp_all
  have step: "Format_step K ch client ?bl ?nicks i (start, w') = Some (start, w') \<longleftrightarrow>
      ?bl + joinedLen names \<le> MAX_REPLY_LEN"
    using lt names before by (simp add: Format_step_def tooLong_def NumericReply_Format_def)
  have kept: "\<exists>g rest.
      NamesReply_groups ?bl ?nicks = Some (gs @ g # rest) \<and>
      NamesReply_Format K h reply client w =
        Some (w @ map (group_line K ch client) (gs @ g # rest) @ [end_line K ch client]) \<and>
      take (length names) g = names"
    if exact: "?bl + joinedLen names = MAX_REPLY_LEN"
  proof -
    have "\<not> tooLong ?bl (seg ?nicks start i)"
      using exact by (simp add: tooLong_def seg)
    then obtain g rest where groups: "NamesReply_groups ?bl ?nicks = Some (gs @ g # rest)"
      and pre: "take (i - start) g = seg ?nicks start i"
      using groups_exact_fit [OF cursor lt i] by blast
    have "NamesReply_Format K h reply client w =
        Some (w @ map (group_line K ch client) (gs @ g # rest) @ [end_line K ch client])"
      using groups by (simp add: NamesReply_Format_groups ch_def)
    then show ?thesis using groups pre by (simp add: seg len)
  qed
  show ?thesis using step kept by blast
qed

text \<open>
  The last member is never tested: when there are two members or more, the final flush
  emits all the members from the cursor on as the last group, whatever their length.
\<close>

lemma last_member_kept:
  assumes "groups_loop bl nicks [0..<length nicks] (0, []) = Some (start, gs)"
    and "2 \<le> length nicks"
  shows "NamesReply_groups bl nicks = Some (gs @ [drop start nicks])"
proof -
  have "start = 0 \<or> start + 2 \<le> length nicks"
    using groups_loop_start_bound [OF assms(1)] by simp
  then show ?thesis
    using NamesReply_groups_run [OF assms(1)] assms(2) by (simp add: seg_to_end)
qed

text \<open>
  Claim C7. The claim: for every member sequence, a member whose addition makes the
  prefix and the joined members exactly 510 bytes long is included in the current group.
  The code at the room whose only member has a name of 490 bytes, for the recipient
  \<open>bob\<close>: the prefix is 20 bytes long, so the member fills the budget exactly, and
  \<^verbatim>\<open>tooLong\<close> does not reject it; yet no group is emitted, and \<^verbatim>\<open>Format\<close> writes the
  terminator alone. The member is in no group: the guard of the final flush,
  \<^verbatim>\<open>start < len(nicks) - 1\<close>, is false for one member.
\<close>

theorem sole_exact_fit_member_dropped:
  "prefixLen irc_numerics (room [sole_nick]) (recipient ''bob'') + joinedLen [sole_nick] =
     MAX_REPLY_LEN \<and>
   \<not> tooLong (prefixLen irc_numerics (room [sole_nick]) (recipient ''bob'')) [sole_nick] \<and>
   NamesReply_groups (prefixLen irc_numerics (room [sole_nick]) (recipient ''bob''))
     (Nicks (room [sole_nick])) = Some [] \<and>
   NamesReply_Format irc_numerics (\<lambda>_. room [sole_nick]) (NewNamesReply 0) (recipient ''bob'') [] =
     Some ['':#go 366 bob :End of NAMES list'']"
  by (simp add: NamesReply_Format_groups NewNamesReply_def Nicks_room prefixLen_room
      end_line_room sole_nick_def run_defs)

subsection \<open>Encoding twice\<close>




subsection \<open>The status code\<close>

text \<open>
  Claim C9. For a numeric reply whose code is between 0 and 999, the rendered line holds
  the code as exactly three decimal digits, padded with zeros: the hundreds, the tens and
  the units. The code 1 is rendered \<open>001\<close> and the code 353 is rendered \<open>353\<close>.
\<close>

theorem NumericReply_code_three_digits:
  assumes "0 \<le> code reply" and "code reply \<le> 999"
  shows "NumericReply_FormatString reply client =
           '':'' @ Id_str (source reply) @ '' '' @
           [digit (nat (code reply) div 100), digit (nat (code reply) div 10 mod 10),
            digit (nat (code reply) mod 10)] @
           '' '' @ Nick (client_ident client) @ '' '' @ message reply \<and>
         fmt_03d 1 = ''001'' \<and> fmt_03d 353 = ''353''"
proof -
  have "fmt_03d 1 = ''001''"
    using fmt_03d_three_digits [of 1] by (simp add: digit_def)
  then show ?thesis
    using fmt_03d_three_digits [OF assms] fmt_353
    by (simp add: NumericReply_FormatString_def)
qed

text \<open>The theorem at the codes 1 and 353, for the source \<open>srv\<close> and the recipient \<open>bob\<close>.\<close>

theorem NumericReply_code_three_digits_witness:
  "NumericReply_FormatString (NewNumericReply (server_ident srv) 1 ''Welcome'') (recipient ''bob'') =
     '':srv 001 bob Welcome'' \<and>
   NumericReply_FormatString (NewNumericReply (server_ident srv) 353 ''= #go :alice'') (recipient ''bob'') =
     '':srv 353 bob = #go :alice''"
  using NumericReply_code_three_digits
      [of "NewNumericReply (server_ident srv) 1 ''Welcome''" "recipient ''bob''"]
    NumericReply_code_three_digits
      [of "NewNumericReply (server_ident srv) 353 ''= #go :alice''" "recipient ''bob''"]
  by (simp add: NewNumericReply_def concrete_defs digit_def)

subsection \<open>Termination\<close>

text \<open>
  Claim C10. For every member sequence, recipient and output, \<^verbatim>\<open>Format\<close> of a names
  reply returns: no slice of the scan is out of range, and the loop is one pass over the
  indices of the members, writing at most one line for each index after the first. With
  the final flush and the terminator, at most one line more than there are members is
  written. A member longer than the whole budget does not stop the scan.
\<close>

theorem NamesReply_Format_returns:
  "\<exists>lines. NamesReply_Format K h reply client w = Some (w @ lines) \<and>
           length lines \<le> length (Nicks (h (channel reply))) + 1"
proof -
  obtain gs where "NamesReply_groups (prefixLen K (h (channel reply)) client)
      (Nicks (h (channel reply))) = Some gs"
    and "length gs \<le> length (Nicks (h (channel reply)))"
    using NamesReply_groups_count by blast
  then show ?thesis by (simp add: NamesReply_Format_groups)
qed

text \<open>
  The theorem at a room whose second member is 600 bytes long: \<^verbatim>\<open>Format\<close> returns four
  lines.
\<close>

theorem NamesReply_Format_returns_witness:
  "\<exists>lines. NamesReply_Format irc_numerics (\<lambda>_. room [''al'', replicate 600 (CHR ''x''), ''cy'', ''di''])
       (NewNamesReply 0) (recipient ''bob'') [] = Some lines \<and> length lines \<le> 5"
  using NamesReply_Format_returns [of irc_numerics "\<lambda>_. room [''al'', replicate 600 (CHR ''x''), ''cy'', ''di'']"
      "NewNamesReply 0" "recipient ''bob''" "[]"]
  by (simp add: Nicks_room eval_nat_numeral)

end
